theory Spec2Isabelle
  imports Complex_Main
begin

section \<open>The price alert bot (\<^verbatim>\<open>src/price_alert_bot.py\<close>)\<close>

text \<open>
  A shallow embedding of class \<^verbatim>\<open>PriceAlertBot\<close>. The object's fields are a record, the
  alert dictionary is an association list in insertion order (the order in which Python
  iterates a dict), every method takes the object and returns it updated, and an exception
  that leaves a method is a value of type \<open>error\<close> returned beside the object.
  Exceptions are told apart as far as the handlers of the source tell them apart:
  \<^verbatim>\<open>except Exception\<close> does not catch \<^verbatim>\<open>KeyboardInterrupt\<close> or \<^verbatim>\<open>SystemExit\<close>,
  \<^verbatim>\<open>except TelegramError\<close> catches that class only, and \<^verbatim>\<open>except KeyboardInterrupt\<close>
  in \<^verbatim>\<open>run\<close> catches the interrupt wherever in the loop it is raised.

  The two collaborators (the market API client and the Telegram bot) and Python's builtin
  \<^verbatim>\<open>float()\<close> are not code of this repository. They are a parameter of every operation:
  a record of functions, the \<open>world\<close>. Each collaborator call is answered as a function of
  the number of collaborator calls made before it and of its arguments, so the same request
  may be answered differently at different times.
\<close>

subsection \<open>Floats and their comparison\<close>

text \<open>
  A Python float is a finite number, an infinity or NaN. The program only compares floats
  (\<^verbatim>\<open>ltp > target\<close>, \<^verbatim>\<open>ltp < target\<close>), and comparison of finite floats is the comparison
  of the numbers they denote, so finite floats are embedded in the reals. Every comparison
  with NaN is false.
\<close>

datatype pyfloat = Finite real | PosInf | NegInf | NaN

fun float_lt :: "pyfloat \<Rightarrow> pyfloat \<Rightarrow> bool" where
  "float_lt NaN y = False"
| "float_lt x NaN = False"
| "float_lt (Finite x) (Finite y) = (x < y)"
| "float_lt (Finite x) PosInf = True"
| "float_lt (Finite x) NegInf = False"
| "float_lt PosInf y = False"
| "float_lt NegInf NegInf = False"
| "float_lt NegInf y = True"

definition float_gt :: "pyfloat \<Rightarrow> pyfloat \<Rightarrow> bool" where
  "float_gt x y = float_lt y x"

subsection \<open>The alert dictionary\<close>

text \<open>
  \<^verbatim>\<open>self.alerts\<close>: symbol -> \<^verbatim>\<open>{'exchange', 'token', 'target_price', 'direction'}\<close>.
  The direction is free text in the source, so it is a string here.
\<close>

record alert =
  exchange :: string
  token :: string
  target_price :: pyfloat
  direction :: string

type_synonym registry = "(string \<times> alert) list"

text \<open>\<^verbatim>\<open>d[k] = v\<close>: an existing key keeps its place and takes the new value, a new key goes last.\<close>

fun dict_set :: "'k \<Rightarrow> 'a \<Rightarrow> ('k \<times> 'a) list \<Rightarrow> ('k \<times> 'a) list" where
  "dict_set k v [] = [(k, v)]"
| "dict_set k v (p # ps) = (if fst p = k then (k, v) # ps else p # dict_set k v ps)"

text \<open>\<^verbatim>\<open>del d[k]\<close>, for a key that is present (the only use in the source).\<close>

fun dict_del :: "'k \<Rightarrow> ('k \<times> 'a) list \<Rightarrow> ('k \<times> 'a) list" where
  "dict_del k [] = []"
| "dict_del k (p # ps) = (if fst p = k then ps else p # dict_del k ps)"

definition keys :: "('k \<times> 'a) list \<Rightarrow> 'k list" where
  "keys d = map fst d"

subsection \<open>Collaborators\<close>

text \<open>
  The exceptions that derive from \<^verbatim>\<open>BaseException\<close> but not from \<^verbatim>\<open>Exception\<close>.
\<close>

datatype base_exception = KeyboardInterrupt | SystemExit

text \<open>
  What \<^verbatim>\<open>api.get_quotes\<close> does: it raises an \<^verbatim>\<open>Exception\<close>, it raises an exception that
  is not an \<^verbatim>\<open>Exception\<close>, or it returns \<^verbatim>\<open>None\<close> or a dict from field names to raw
  values of some type \<open>'v\<close>.
\<close>

datatype 'v quote_outcome =
    QuoteRaises
  | QuoteRaisesBase base_exception
  | QuoteReturns "(string \<times> 'v) list option"

text \<open>
  What \<^verbatim>\<open>telegram_bot.send_message\<close> does: it delivers, it raises a \<^verbatim>\<open>TelegramError\<close>
  (the class \<^verbatim>\<open>send_telegram_alert\<close> catches), it raises some other \<^verbatim>\<open>Exception\<close>, or
  it raises an exception that is not an \<^verbatim>\<open>Exception\<close>.
\<close>

datatype send_outcome =
    Delivered
  | RaisesTelegramError
  | RaisesOther
  | RaisesBase base_exception

text \<open>
  What reading the credentials and calling \<^verbatim>\<open>api.login\<close> does in \<^verbatim>\<open>login_market_api\<close>:
  an exception, \<^verbatim>\<open>None\<close>, or a session.
\<close>

datatype login_outcome = LoginRaises | LoginReturnsNone | LoginReturnsSession

text \<open>
  The text of a notification,
  \<^verbatim>\<open>f"Price Alert: {symbol} LTP {ltp} crossed above {target}"\<close>, kept as the values the
  format string is filled with: the symbol, the price, the word and the target.
\<close>

datatype message = PriceAlert (msg_symbol: string) (msg_ltp: pyfloat) (msg_word: string)
  (msg_target: pyfloat)

record 'v world =
  login :: login_outcome
  get_quotes :: "nat \<Rightarrow> string \<Rightarrow> string \<Rightarrow> 'v quote_outcome"
  send_message :: "nat \<Rightarrow> string \<Rightarrow> message \<Rightarrow> send_outcome"
  py_float :: "'v \<Rightarrow> pyfloat option"

text \<open>
  \<open>py_float w v\<close> is \<^verbatim>\<open>float(v)\<close>: \<open>None\<close> when it raises \<^verbatim>\<open>ValueError\<close> or
  \<^verbatim>\<open>TypeError\<close>.
\<close>

subsection \<open>The object\<close>

text \<open>
  Of the fields of the Python object, \<^verbatim>\<open>api\<close> and \<^verbatim>\<open>telegram_bot\<close> are the collaborators
  (the world), and \<^verbatim>\<open>poll_interval\<close> and \<^verbatim>\<open>market_cred_path\<close> only feed the sleep and
  the reading of the credentials, which are not modelled. The collaborator calls made so
  far are logged in \<open>trace\<close>, oldest first, each with how it ended. The trace is not a
  field of the Python object: it is what an observer of the two collaborators sees.
\<close>

datatype fetch_status = Returned | RaisedException | RaisedBase base_exception

datatype event =
    GetQuotes string string fetch_status
  | SendMessage string message send_outcome

record bot =
  alerts :: registry
  logged_in :: bool
  chat_id :: string
  trace :: "event list"

text \<open>
  The exceptions that can leave a method: one raised by the login, one raised by the send
  that is an \<^verbatim>\<open>Exception\<close> but not a \<^verbatim>\<open>TelegramError\<close>, or one raised by the quote call
  or the send that is not an \<^verbatim>\<open>Exception\<close>. All are exceptions of collaborator calls: an
  interrupt delivered between two calls of a cycle is not modelled.
\<close>

datatype error = LoginException | NotifierException | Base base_exception

definition init :: "string \<Rightarrow> bot" where
  "init telegram_chat_id =
     \<lparr>alerts = [], logged_in = False, chat_id = telegram_chat_id, trace = []\<rparr>"

definition add_alert :: "bot \<Rightarrow> string \<Rightarrow> string \<Rightarrow> string \<Rightarrow> pyfloat \<Rightarrow> string \<Rightarrow> bot" where
  "add_alert s symbol exch tok target dir =
     s\<lparr>alerts := dict_set symbol
          \<lparr>exchange = exch, token = tok, target_price = target, direction = dir\<rparr>
          (alerts s)\<rparr>"

text \<open>\<^verbatim>\<open>quote and 'k' in quote\<close>: the quote is neither \<^verbatim>\<open>None\<close> nor empty, and has the field.\<close>

definition has_field :: "(string \<times> 'v) list option \<Rightarrow> string \<Rightarrow> bool" where
  "has_field quote k =
     (case quote of None \<Rightarrow> False | Some q \<Rightarrow> q \<noteq> [] \<and> map_of q k \<noteq> None)"

definition field :: "(string \<times> 'v) list option \<Rightarrow> string \<Rightarrow> 'v option" where
  "field quote k = (case quote of None \<Rightarrow> None | Some q \<Rightarrow> map_of q k)"

text \<open>
  \<^verbatim>\<open>fetch_ltp\<close>. An \<^verbatim>\<open>Exception\<close> raised in its body (by \<^verbatim>\<open>get_quotes\<close> or by
  \<^verbatim>\<open>float\<close>) is caught by \<^verbatim>\<open>except Exception\<close> and turned into \<^verbatim>\<open>None\<close>; an
  exception of \<^verbatim>\<open>get_quotes\<close> that is not an \<^verbatim>\<open>Exception\<close> leaves the method (\<open>Inl\<close>).
\<close>

definition parse_field :: "'v world \<Rightarrow> (string \<times> 'v) list option \<Rightarrow> string \<Rightarrow> pyfloat option" where
  "parse_field w quote k = (case field quote k of None \<Rightarrow> None | Some v \<Rightarrow> py_float w v)"

definition fetch_ltp ::
  "'v world \<Rightarrow> bot \<Rightarrow> string \<Rightarrow> string \<Rightarrow> (error + pyfloat option) \<times> bot" where
  "fetch_ltp w s exch tok =
     (case get_quotes w (length (trace s)) exch tok of
        QuoteRaisesBase b \<Rightarrow>
          (Inl (Base b), s\<lparr>trace := trace s @ [GetQuotes exch tok (RaisedBase b)]\<rparr>)
      | QuoteRaises \<Rightarrow>
          (Inr None, s\<lparr>trace := trace s @ [GetQuotes exch tok RaisedException]\<rparr>)
      | QuoteReturns quote \<Rightarrow>
          (let s' = s\<lparr>trace := trace s @ [GetQuotes exch tok Returned]\<rparr> in
           if has_field quote ''lp'' then (Inr (parse_field w quote ''lp''), s')
           else if has_field quote ''ltp'' then (Inr (parse_field w quote ''ltp''), s')
           else (Inr None, s')))"

text \<open>
  \<^verbatim>\<open>send_telegram_alert\<close>. Only \<^verbatim>\<open>TelegramError\<close> is caught; any other exception
  leaves the method.
\<close>

definition send_telegram_alert :: "'v world \<Rightarrow> bot \<Rightarrow> message \<Rightarrow> error option \<times> bot" where
  "send_telegram_alert w s m =
     (let out = send_message w (length (trace s)) (chat_id s) m;
          s' = s\<lparr>trace := trace s @ [SendMessage (chat_id s) m out]\<rparr> in
      case out of
        Delivered \<Rightarrow> (None, s')
      | RaisesTelegramError \<Rightarrow> (None, s')
      | RaisesOther \<Rightarrow> (Some NotifierException, s')
      | RaisesBase b \<Rightarrow> (Some (Base b), s'))"

text \<open>
  \<^verbatim>\<open>check_alerts\<close>. The loop runs over the items of the dict as they are when it starts:
  the only mutation, \<^verbatim>\<open>del self.alerts[symbol]\<close>, is followed at once by \<^verbatim>\<open>break\<close>.
  A branch that ends without a recursive call is the \<^verbatim>\<open>break\<close> (or the exception).
\<close>

fun check_loop :: "'v world \<Rightarrow> registry \<Rightarrow> bot \<Rightarrow> error option \<times> bot" where
  "check_loop w [] s = (None, s)"
| "check_loop w ((symbol, alert) # rest) s =
     (case fetch_ltp w s (exchange alert) (token alert) of
        (Inl e, s1) \<Rightarrow> (Some e, s1)
      | (Inr None, s1) \<Rightarrow> check_loop w rest s1
      | (Inr (Some ltp), s1) \<Rightarrow>
          if direction alert = ''above'' \<and> float_gt ltp (target_price alert) then
            (case send_telegram_alert w s1
                    (PriceAlert symbol ltp ''above'' (target_price alert)) of
               (Some e, s2) \<Rightarrow> (Some e, s2)
             | (None, s2) \<Rightarrow> (None, s2\<lparr>alerts := dict_del symbol (alerts s2)\<rparr>))
          else if direction alert = ''below'' \<and> float_lt ltp (target_price alert) then
            (case send_telegram_alert w s1
                    (PriceAlert symbol ltp ''below'' (target_price alert)) of
               (Some e, s2) \<Rightarrow> (Some e, s2)
             | (None, s2) \<Rightarrow> (None, s2\<lparr>alerts := dict_del symbol (alerts s2)\<rparr>))
          else check_loop w rest s1)"

definition check_alerts :: "'v world \<Rightarrow> bot \<Rightarrow> error option \<times> bot" where
  "check_alerts w s = check_loop w (alerts s) s"

text \<open>\<^verbatim>\<open>login_market_api\<close>: an exception of the login leaves the method.\<close>

definition login_market_api :: "'v world \<Rightarrow> bot \<Rightarrow> error option \<times> bot" where
  "login_market_api w s =
     (case login w of
        LoginRaises \<Rightarrow> (Some LoginException, s)
      | LoginReturnsSession \<Rightarrow> (None, s\<lparr>logged_in := True\<rparr>)
      | LoginReturnsNone \<Rightarrow> (None, s\<lparr>logged_in := False\<rparr>))"

text \<open>
  The \<^verbatim>\<open>while True\<close> loop of \<^verbatim>\<open>run\<close> ends only by \<^verbatim>\<open>KeyboardInterrupt\<close> or by another
  exception that \<^verbatim>\<open>check_alerts\<close> lets through. The interrupt arrives during the sleep
  after the number of passes given as the first argument of \<open>run_loop\<close>, or earlier out of
  a collaborator call of a cycle; either way \<^verbatim>\<open>except KeyboardInterrupt\<close> ends the loop
  normally (\<open>None\<close>).
\<close>

fun run_loop :: "nat \<Rightarrow> 'v world \<Rightarrow> bot \<Rightarrow> error option \<times> bot" where
  "run_loop 0 w s = (None, s)"
| "run_loop (Suc n) w s =
     (if alerts s = [] then run_loop n w s
      else (case check_alerts w s of
              (Some e, s') \<Rightarrow> (if e = Base KeyboardInterrupt then (None, s') else (Some e, s'))
            | (None, s') \<Rightarrow> run_loop n w s'))"

text \<open>
  How \<^verbatim>\<open>run\<close> ends: the early \<^verbatim>\<open>return\<close> after "Cannot start alert bot without market
  API login.", the interrupt, or an exception. The login is made before the \<^verbatim>\<open>try\<close>, so
  none of its exceptions is caught.
\<close>

datatype run_end = CannotStart | StoppedByUser | Raised error

definition run :: "nat \<Rightarrow> 'v world \<Rightarrow> bot \<Rightarrow> run_end \<times> bot" where
  "run n w s =
     (case login_market_api w s of
        (Some e, s') \<Rightarrow> (Raised e, s')
      | (None, s') \<Rightarrow>
          if \<not> logged_in s' then (CannotStart, s')
          else (case run_loop n w s' of
                  (Some e, s'') \<Rightarrow> (Raised e, s'')
                | (None, s'') \<Rightarrow> (StoppedByUser, s'')))"

subsection \<open>Observations on a trace\<close>

definition new_events :: "bot \<Rightarrow> bot \<Rightarrow> event list" where
  "new_events s s' = drop (length (trace s)) (trace s')"

fun is_send_for :: "string \<Rightarrow> event \<Rightarrow> bool" where
  "is_send_for k (SendMessage c m out) = (msg_symbol m = k)"
| "is_send_for k (GetQuotes e t st) = False"

definition notified :: "string \<Rightarrow> event list \<Rightarrow> bool" where
  "notified k evs = (filter (is_send_for k) evs \<noteq> [])"

text \<open>The exception, if any, that a send lets out of \<^verbatim>\<open>send_telegram_alert\<close>.\<close>

fun send_error :: "send_outcome \<Rightarrow> error option" where
  "send_error Delivered = None"
| "send_error RaisesTelegramError = None"
| "send_error RaisesOther = Some NotifierException"
| "send_error (RaisesBase b) = Some (Base b)"

text \<open>
  A call that raised outside the class its handler catches: \<^verbatim>\<open>except Exception\<close> around
  the fetch, \<^verbatim>\<open>except TelegramError\<close> around the send.
\<close>

fun beyond_handlers :: "event \<Rightarrow> bool" where
  "beyond_handlers (GetQuotes e t (RaisedBase b)) = True"
| "beyond_handlers (GetQuotes e t st) = False"
| "beyond_handlers (SendMessage c m out) = (send_error out \<noteq> None)"

text \<open>A quote fetch that returned or whose exception was caught.\<close>

fun is_fetch :: "event \<Rightarrow> bool" where
  "is_fetch (GetQuotes e t st) = (\<not> beyond_handlers (GetQuotes e t st))"
| "is_fetch (SendMessage c m out) = False"

text \<open>The crossing condition, as the two tests of \<^verbatim>\<open>check_alerts\<close> read it.\<close>

definition crossing :: "alert \<Rightarrow> pyfloat \<Rightarrow> bool" where
  "crossing a p =
     (direction a = ''above'' \<and> float_gt p (target_price a) \<or>
      direction a = ''below'' \<and> float_lt p (target_price a))"

text \<open>
  The calls a program can make on the object, and a fresh object after a sequence of them
  (whether or not a call raises, the object is what the call left).
\<close>

datatype op = Add string string string pyfloat string | Login | Check

fun apply_op :: "'v world \<Rightarrow> bot \<Rightarrow> op \<Rightarrow> bot" where
  "apply_op w s (Add symbol exch tok target dir) = add_alert s symbol exch tok target dir"
| "apply_op w s Login = snd (login_market_api w s)"
| "apply_op w s Check = snd (check_alerts w s)"

definition apply_ops :: "'v world \<Rightarrow> string \<Rightarrow> op list \<Rightarrow> bot" where
  "apply_ops w c ops = foldl (apply_op w) (init c) ops"

text \<open>The calls that register an alert for the key \<open>k\<close>.\<close>

fun adds :: "string \<Rightarrow> op \<Rightarrow> bool" where
  "adds k (Add symbol exch tok target dir) = (symbol = k)"
| "adds k Login = False"
| "adds k Check = False"

subsection \<open>The scenario of the main block\<close>

text \<open>
  The two alerts the script registers, and a market that quotes 2501.0 for token 22 and
  2950.0 for token 33 and fails for every other token. Raw quote values are strings.
\<close>

definition demo_float :: "string \<Rightarrow> pyfloat option" where
  "demo_float v =
     (if v = ''2501.0'' then Some (Finite 2501)
      else if v = ''2950.0'' then Some (Finite 2950)
      else None)"

definition demo_quotes :: "nat \<Rightarrow> string \<Rightarrow> string \<Rightarrow> string quote_outcome" where
  "demo_quotes n exch tok =
     (if tok = ''22'' then QuoteReturns (Some [(''lp'', ''2501.0'')])
      else if tok = ''33'' then QuoteReturns (Some [(''lp'', ''2950.0'')])
      else QuoteRaises)"

definition demo_world :: "send_outcome \<Rightarrow> string world" where
  "demo_world out =
     \<lparr>login = LoginReturnsSession, get_quotes = demo_quotes,
      send_message = (\<lambda>n c m. out), py_float = demo_float\<rparr>"

definition reliance :: alert where
  "reliance = \<lparr>exchange = ''NSE'', token = ''22'', target_price = Finite 2500,
     direction = ''above''\<rparr>"

definition tcs :: alert where
  "tcs = \<lparr>exchange = ''NSE'', token = ''33'', target_price = Finite 3000,
     direction = ''below''\<rparr>"

definition demo_bot :: bot where
  "demo_bot =
     add_alert
       (add_alert (init ''chat'') ''RELIANCE-EQ'' ''NSE'' ''22'' (Finite 2500) ''above'')
       ''TCS-EQ'' ''NSE'' ''33'' (Finite 3000) ''below''"

definition infy :: alert where
  "infy = \<lparr>exchange = ''NSE'', token = ''11'', target_price = Finite 1500,
     direction = ''above''\<rparr>"

text \<open>The same two alerts behind a third one whose token the market does not quote.\<close>

definition demo_bot3 :: bot where
  "demo_bot3 =
     add_alert
       (add_alert
          (add_alert (init ''chat'') ''INFY-EQ'' ''NSE'' ''11'' (Finite 1500) ''above'')
          ''RELIANCE-EQ'' ''NSE'' ''22'' (Finite 2500) ''above'')
       ''TCS-EQ'' ''NSE'' ''33'' (Finite 3000) ''below''"

text \<open>A market whose quote call ends the interpreter (\<^verbatim>\<open>SystemExit\<close>).\<close>

definition exiting_world :: "string world" where
  "exiting_world =
     (demo_world Delivered)\<lparr>get_quotes := (\<lambda>n exch tok. QuoteRaisesBase SystemExit)\<rparr>"

text \<open>A market whose login returns \<^verbatim>\<open>None\<close>.\<close>

definition offline_world :: "string world" where
  "offline_world = (demo_world Delivered)\<lparr>login := LoginReturnsNone\<rparr>"

text \<open>
  A market that quotes the price \<open>p\<close> for every token (raw values are floats already), and
  an object watching one symbol.
\<close>

definition quoting :: "pyfloat \<Rightarrow> pyfloat world" where
  "quoting p =
     \<lparr>login = LoginReturnsSession,
      get_quotes = (\<lambda>n exch tok. QuoteReturns (Some [(''lp'', p)])),
      send_message = (\<lambda>n c m. Delivered), py_float = Some\<rparr>"

definition watch :: "string \<Rightarrow> pyfloat \<Rightarrow> bot" where
  "watch dir target = add_alert (init ''chat'') ''X'' ''NSE'' ''1'' target dir"

section \<open>Properties\<close>

subsection \<open>Dictionary operations\<close>

lemma set_keys_dict_set: "set (keys (dict_set k v d)) = insert k (set (keys d))"
  by (induction d) (auto simp: keys_def)

lemma distinct_dict_set: "distinct (keys d) \<Longrightarrow> distinct (keys (dict_set k v d))"
proof (induction d)
  case Nil
  then show ?case by (simp add: keys_def)
next
  case (Cons p ps)
  have "fst p \<notin> set (keys (dict_set k v ps))" if "fst p \<noteq> k"
    using that Cons.prems by (simp add: set_keys_dict_set) (simp add: keys_def)
  with Cons show ?case by (auto simp: keys_def)
qed

lemma map_of_dict_set: "map_of (dict_set k v d) k = Some v"
  by (induction d) auto

lemma filter_dict_set:
  "distinct (keys d) \<Longrightarrow> filter (\<lambda>p. fst p = k) (dict_set k v d) = [(k, v)]"
proof (induction d)
  case Nil
  then show ?case by simp
next
  case (Cons p ps)
  show ?case
  proof (cases "fst p = k")
    case True
    with Cons.prems have "k \<notin> fst ` set ps" by (simp add: keys_def)
    then have "\<forall>q \<in> set ps. fst q \<noteq> k" by (metis imageI)
    then have "filter (\<lambda>p. fst p = k) ps = []" by (simp add: filter_empty_conv)
    with True show ?thesis by simp
  next
    case False
    with Cons show ?thesis by (simp add: keys_def)
  qed
qed

lemma keys_dict_del_subset: "set (keys (dict_del k d)) \<subseteq> set (keys d)"
  by (induction d) (auto simp: keys_def)

lemma distinct_dict_del: "distinct (keys d) \<Longrightarrow> distinct (keys (dict_del k d))"
proof (induction d)
  case Nil
  then show ?case by simp
next
  case (Cons p ps)
  have "fst p \<notin> set (keys (dict_del k ps))"
    using Cons.prems keys_dict_del_subset[of k ps] by (auto simp: keys_def)
  with Cons show ?case by (auto simp: keys_def)
qed

lemma dict_del_removes: "distinct (keys d) \<Longrightarrow> k \<notin> set (keys (dict_del k d))"
  by (induction d) (auto simp: keys_def)

lemma dict_del_other:
  "k' \<noteq> k \<Longrightarrow> (k' \<in> set (keys (dict_del k d))) = (k' \<in> set (keys d))"
  by (induction d) (auto simp: keys_def)

subsection \<open>The shape of one evaluation cycle\<close>

lemma fetch_ltp_state:
  assumes "fetch_ltp w s e t = (r, s1)"
  shows "\<exists>st. s1 = s\<lparr>trace := trace s @ [GetQuotes e t st]\<rparr> \<and>
     (case r of Inl err \<Rightarrow> (\<exists>b. st = RaisedBase b \<and> err = Base b)
      | Inr q \<Rightarrow> is_fetch (GetQuotes e t st))"
proof (cases "get_quotes w (length (trace s)) e t")
  case QuoteRaises
  with assms show ?thesis by (auto simp: fetch_ltp_def)
next
  case (QuoteRaisesBase b)
  with assms show ?thesis by (auto simp: fetch_ltp_def)
next
  case (QuoteReturns quote)
  with assms show ?thesis by (auto simp: fetch_ltp_def Let_def split: if_splits)
qed

lemma send_telegram_alert_state:
  "send_telegram_alert w s m =
     (send_error (send_message w (length (trace s)) (chat_id s) m),
      s\<lparr>trace := trace s @
            [SendMessage (chat_id s) m (send_message w (length (trace s)) (chat_id s) m)]\<rparr>)"
  by (cases "send_message w (length (trace s)) (chat_id s) m")
    (simp_all add: send_telegram_alert_def Let_def)

lemma check_loop_raise:
  "fetch_ltp w s (exchange a) (token a) = (Inl e, s1) \<Longrightarrow>
     check_loop w ((k, a) # rest) s = (Some e, s1)"
  by simp

lemma check_loop_skip:
  "fetch_ltp w s (exchange a) (token a) = (Inr None, s1) \<Longrightarrow>
     check_loop w ((k, a) # rest) s = check_loop w rest s1"
  by simp

lemma check_loop_no_crossing:
  "fetch_ltp w s (exchange a) (token a) = (Inr (Some p), s1) \<Longrightarrow> \<not> crossing a p \<Longrightarrow>
     check_loop w ((k, a) # rest) s = check_loop w rest s1"
  by (auto simp: crossing_def)

text \<open>The trigger branch: the send, then the removal unless the send let an exception out.\<close>

lemma check_loop_crossing:
  assumes "fetch_ltp w s (exchange a) (token a) = (Inr (Some p), s1)" and "crossing a p"
  shows "check_loop w ((k, a) # rest) s =
     (let m = PriceAlert k p (direction a) (target_price a);
          out = send_message w (length (trace s1)) (chat_id s1) m;
          s2 = s1\<lparr>trace := trace s1 @ [SendMessage (chat_id s1) m out]\<rparr>
      in if send_error out = None then (None, s2\<lparr>alerts := dict_del k (alerts s1)\<rparr>)
         else (send_error out, s2))"
  using assms
  by (auto simp: crossing_def send_telegram_alert_state Let_def split: option.splits)

text \<open>
  A cycle makes some quote fetches and then stops in one of three ways: at the end of the
  items, with the dictionary as it was; at a fetch that raised past the handler; or at a
  send, which is its last call, and then without the alert the send was for unless the
  send raised past the handler.
\<close>

lemma check_loop_shape:
  "check_loop w xs s = (r, s') \<Longrightarrow>
     \<exists>fs. list_all is_fetch fs \<and>
        ((r = None \<and> trace s' = trace s @ fs \<and> alerts s' = alerts s) \<or>
         (\<exists>e t b. trace s' = trace s @ fs @ [GetQuotes e t (RaisedBase b)] \<and>
             r = Some (Base b) \<and> alerts s' = alerts s) \<or>
         (\<exists>k a m out. (k, a) \<in> set xs \<and> msg_symbol m = k \<and>
             trace s' = trace s @ fs @ [SendMessage (chat_id s) m out] \<and>
             r = send_error out \<and>
             alerts s' = (if send_error out = None then dict_del k (alerts s) else alerts s)))"
proof (induction xs arbitrary: s)
  case Nil
  then show ?case by (auto intro: exI[of _ "[]"])
next
  case (Cons x xs)
  obtain symbol al where x: "x = (symbol, al)" by (cases x)
  obtain lt s1 where f: "fetch_ltp w s (exchange al) (token al) = (lt, s1)"
    by (cases "fetch_ltp w s (exchange al) (token al)")
  from fetch_ltp_state[OF f] obtain st where
    s1: "s1 = s\<lparr>trace := trace s @ [GetQuotes (exchange al) (token al) st]\<rparr>" and
    st: "case lt of Inl err \<Rightarrow> (\<exists>b. st = RaisedBase b \<and> err = Base b)
         | Inr q \<Rightarrow> is_fetch (GetQuotes (exchange al) (token al) st)"
    by blast
  let ?g = "GetQuotes (exchange al) (token al) st"
  have continue: ?case
    if rec: "check_loop w (x # xs) s = check_loop w xs s1" and g: "is_fetch ?g"
  proof -
    from rec Cons.prems have "check_loop w xs s1 = (r, s')" by simp
    from Cons.IH[OF this] obtain fs where
      fs: "list_all is_fetch fs" and
      alt: "(r = None \<and> trace s' = trace s1 @ fs \<and> alerts s' = alerts s1) \<or>
         (\<exists>e t b. trace s' = trace s1 @ fs @ [GetQuotes e t (RaisedBase b)] \<and>
             r = Some (Base b) \<and> alerts s' = alerts s1) \<or>
         (\<exists>k a m out. (k, a) \<in> set xs \<and> msg_symbol m = k \<and>
             trace s' = trace s1 @ fs @ [SendMessage (chat_id s1) m out] \<and>
             r = send_error out \<and>
             alerts s' = (if send_error out = None then dict_del k (alerts s1) else alerts s1))"
      by blast
    have "list_all is_fetch (?g # fs)" using fs g by simp
    moreover have "(r = None \<and> trace s' = trace s @ (?g # fs) \<and> alerts s' = alerts s) \<or>
         (\<exists>e t b. trace s' = trace s @ (?g # fs) @ [GetQuotes e t (RaisedBase b)] \<and>
             r = Some (Base b) \<and> alerts s' = alerts s) \<or>
         (\<exists>k a m out. (k, a) \<in> set (x # xs) \<and> msg_symbol m = k \<and>
             trace s' = trace s @ (?g # fs) @ [SendMessage (chat_id s) m out] \<and>
             r = send_error out \<and>
             alerts s' = (if send_error out = None then dict_del k (alerts s) else alerts s))"
    proof -
      have a1: "alerts s1 = alerts s" "chat_id s1 = chat_id s" "trace s1 = trace s @ [?g]"
        unfolding s1 by simp_all
      from alt consider
          (ended) "r = None" "trace s' = trace s1 @ fs" "alerts s' = alerts s1"
        | (raised) e t b where "trace s' = trace s1 @ fs @ [GetQuotes e t (RaisedBase b)]"
            "r = Some (Base b)" "alerts s' = alerts s1"
        | (sent) k a m out where "(k, a) \<in> set xs" "msg_symbol m = k"
            "trace s' = trace s1 @ fs @ [SendMessage (chat_id s1) m out]" "r = send_error out"
            "alerts s' = (if send_error out = None then dict_del k (alerts s1) else alerts s1)"
        by blast
      then show ?thesis
      proof cases
        case ended
        then show ?thesis by (simp add: a1)
      next
        case raised
        then have "trace s' = trace s @ (?g # fs) @ [GetQuotes e t (RaisedBase b)] \<and>
             r = Some (Base b) \<and> alerts s' = alerts s"
          by (simp add: a1)
        then show ?thesis by blast
      next
        case sent
        then have "(k, a) \<in> set (x # xs) \<and> msg_symbol m = k \<and>
             trace s' = trace s @ (?g # fs) @ [SendMessage (chat_id s) m out] \<and>
             r = send_error out \<and>
             alerts s' = (if send_error out = None then dict_del k (alerts s) else alerts s)"
          by (simp add: a1)
        then show ?thesis by blast
      qed
    qed
    ultimately show ?thesis by blast
  qed
  show ?case
  proof (cases lt)
    case (Inl err)
    with st obtain b where b: "st = RaisedBase b" "err = Base b" by auto
    have "check_loop w (x # xs) s = (Some err, s1)"
      using f Inl x by simp
    with Cons.prems have "r = Some (Base b)" "s' = s1" using b by simp_all
    then have "trace s' = trace s @ [] @ [GetQuotes (exchange al) (token al) (RaisedBase b)] \<and>
        r = Some (Base b) \<and> alerts s' = alerts s"
      using s1 b by simp
    moreover have "list_all is_fetch []" by simp
    ultimately show ?thesis by blast
  next
    case (Inr q)
    with st have g: "is_fetch ?g" by simp
    show ?thesis
    proof (cases q)
      case None
      with f x Inr g show ?thesis by (intro continue) simp_all
    next
      case (Some p)
      show ?thesis
      proof (cases "crossing al p")
        case False
        with f x Inr Some g show ?thesis
          by (intro continue) (simp_all add: check_loop_no_crossing del: check_loop.simps)
      next
        case True
        let ?m = "PriceAlert symbol p (direction al) (target_price al)"
        let ?out = "send_message w (length (trace s1)) (chat_id s1) ?m"
        let ?s2 = "s1\<lparr>trace := trace s1 @ [SendMessage (chat_id s1) ?m ?out]\<rparr>"
        have res: "(r, s') =
            (if send_error ?out = None then (None, ?s2\<lparr>alerts := dict_del symbol (alerts s1)\<rparr>)
             else (send_error ?out, ?s2))"
          using check_loop_crossing[OF f[unfolded Inr Some] True, of symbol xs] Cons.prems x
          by (simp add: Let_def)
        have "list_all is_fetch [?g]" using g by simp
        moreover have "(symbol, al) \<in> set (x # xs)" using x by simp
        moreover have "msg_symbol ?m = symbol" by simp
        moreover have "trace s' = trace s @ [?g] @ [SendMessage (chat_id s) ?m ?out]"
          using res unfolding s1 by (auto split: if_splits)
        moreover have "r = send_error ?out"
          using res by (auto split: if_splits)
        moreover have "alerts s' =
            (if send_error ?out = None then dict_del symbol (alerts s) else alerts s)"
          using res unfolding s1 by (auto split: if_splits)
        ultimately show ?thesis by blast
      qed
    qed
  qed
qed

lemma check_loop_distinct:
  assumes "check_loop w xs s = (r, s')" and "distinct (keys (alerts s))"
  shows "distinct (keys (alerts s'))"
  using check_loop_shape[OF assms(1)] assms(2) by (auto simp: distinct_dict_del)

lemma apply_op_distinct:
  assumes "distinct (keys (alerts s))"
  shows "distinct (keys (alerts (apply_op w s x)))"
proof (cases x)
  case (Add symbol exch tok target dir)
  with assms show ?thesis by (simp add: add_alert_def distinct_dict_set)
next
  case Login
  with assms show ?thesis by (simp add: login_market_api_def split: login_outcome.splits)
next
  case Check
  have "check_loop w (alerts s) s = (fst (check_alerts w s), snd (check_alerts w s))"
    by (simp add: check_alerts_def)
  from check_loop_distinct[OF this assms] Check show ?thesis by simp
qed

lemma foldl_apply_op_distinct:
  "distinct (keys (alerts s)) \<Longrightarrow> distinct (keys (alerts (foldl (apply_op w) s ops)))"
  by (induction ops arbitrary: s) (simp_all add: apply_op_distinct)

lemma apply_ops_distinct: "distinct (keys (alerts (apply_ops w c ops)))"
  unfolding apply_ops_def by (rule foldl_apply_op_distinct) (simp add: init_def keys_def)

lemma demo_bot_alerts: "alerts demo_bot = [(''RELIANCE-EQ'', reliance), (''TCS-EQ'', tcs)]"
  by (simp add: demo_bot_def add_alert_def init_def reliance_def tcs_def)

subsection \<open>Fetches and sends in a trace\<close>

lemma fetches_no_send: "list_all is_fetch fs \<Longrightarrow> SendMessage c m out \<notin> set fs"
  by (induction fs) auto

lemma fetches_handled: "list_all is_fetch fs \<Longrightarrow> filter beyond_handlers fs = []"
proof (induction fs)
  case Nil
  show ?case by simp
next
  case (Cons e fs)
  then show ?case by (cases e) auto
qed

lemma fetches_not_notified: "list_all is_fetch fs \<Longrightarrow> filter (is_send_for k) fs = []"
proof (induction fs)
  case Nil
  show ?case by simp
next
  case (Cons e fs)
  then show ?case by (cases e) auto
qed

lemma notified_append: "notified k (xs @ ys) = (notified k xs \<or> notified k ys)"
  by (simp add: notified_def)

lemma new_events_append: "trace s' = trace s @ evs \<Longrightarrow> new_events s s' = evs"
  by (simp add: new_events_def)

lemma check_loop_cases:
  assumes "check_loop w xs s = (r, s')"
  shows "trace s' = trace s @ new_events s s' \<and>
    ((r = None \<and> alerts s' = alerts s \<and> list_all is_fetch (new_events s s')) \<or>
     (\<exists>e t b fs. list_all is_fetch fs \<and>
        new_events s s' = fs @ [GetQuotes e t (RaisedBase b)] \<and>
        r = Some (Base b) \<and> alerts s' = alerts s) \<or>
     (\<exists>k a m out fs. (k, a) \<in> set xs \<and> msg_symbol m = k \<and> list_all is_fetch fs \<and>
        new_events s s' = fs @ [SendMessage (chat_id s) m out] \<and>
        r = send_error out \<and>
        alerts s' = (if send_error out = None then dict_del k (alerts s) else alerts s)))"
proof -
  from check_loop_shape[OF assms] obtain fs where fs: "list_all is_fetch fs" and
    alt: "(r = None \<and> trace s' = trace s @ fs \<and> alerts s' = alerts s) \<or>
         (\<exists>e t b. trace s' = trace s @ fs @ [GetQuotes e t (RaisedBase b)] \<and>
             r = Some (Base b) \<and> alerts s' = alerts s) \<or>
         (\<exists>k a m out. (k, a) \<in> set xs \<and> msg_symbol m = k \<and>
             trace s' = trace s @ fs @ [SendMessage (chat_id s) m out] \<and>
             r = send_error out \<and>
             alerts s' = (if send_error out = None then dict_del k (alerts s) else alerts s))"
    by blast
  from alt consider
      (ended) "r = None" "trace s' = trace s @ fs" "alerts s' = alerts s"
    | (raised) e t b where "trace s' = trace s @ fs @ [GetQuotes e t (RaisedBase b)]"
        "r = Some (Base b)" "alerts s' = alerts s"
    | (sent) k a m out where "(k, a) \<in> set xs" "msg_symbol m = k"
        "trace s' = trace s @ fs @ [SendMessage (chat_id s) m out]" "r = send_error out"
        "alerts s' = (if send_error out = None then dict_del k (alerts s) else alerts s)"
    by blast
  then show ?thesis
  proof cases
    case ended
    then have "new_events s s' = fs" by (simp add: new_events_append)
    with ended fs show ?thesis by simp
  next
    case raised
    then have ne: "new_events s s' = fs @ [GetQuotes e t (RaisedBase b)]"
      by (simp add: new_events_append)
    then have "trace s' = trace s @ new_events s s'" using raised by simp
    moreover have "\<exists>e t b fs. list_all is_fetch fs \<and>
        new_events s s' = fs @ [GetQuotes e t (RaisedBase b)] \<and>
        r = Some (Base b) \<and> alerts s' = alerts s"
      using fs ne raised by blast
    ultimately show ?thesis by blast
  next
    case sent
    then have ne: "new_events s s' = fs @ [SendMessage (chat_id s) m out]"
      by (simp add: new_events_append)
    then have "trace s' = trace s @ new_events s s'" using sent by simp
    moreover have "\<exists>k a m out fs. (k, a) \<in> set xs \<and> msg_symbol m = k \<and>
        list_all is_fetch fs \<and>
        new_events s s' = fs @ [SendMessage (chat_id s) m out] \<and>
        r = send_error out \<and>
        alerts s' = (if send_error out = None then dict_del k (alerts s) else alerts s)"
      using fs ne sent by blast
    ultimately show ?thesis by blast
  qed
qed

text \<open>
  A send of a cycle is for an alert of the loop's list; the cycle ends with what the send
  let out, and has removed that alert unless the send raised past the handler.
\<close>

lemma check_loop_send:
  assumes "check_loop w xs s = (r, s')" and "SendMessage c m out \<in> set (new_events s s')"
  shows "msg_symbol m \<in> set (keys xs) \<and> r = send_error out \<and>
     alerts s' =
       (if send_error out = None then dict_del (msg_symbol m) (alerts s) else alerts s)"
proof -
  from check_loop_cases[OF assms(1)] consider
      (ended) "list_all is_fetch (new_events s s')"
    | (raised) e t b fs where "list_all is_fetch fs"
        "new_events s s' = fs @ [GetQuotes e t (RaisedBase b)]"
    | (sent) k a m' out' fs where "(k, a) \<in> set xs" "msg_symbol m' = k"
        "list_all is_fetch fs" "new_events s s' = fs @ [SendMessage (chat_id s) m' out']"
        "r = send_error out'"
        "alerts s' = (if send_error out' = None then dict_del k (alerts s) else alerts s)"
    by blast
  then show ?thesis
  proof cases
    case ended
    with assms(2) fetches_no_send show ?thesis by blast
  next
    case raised
    with assms(2) fetches_no_send[OF raised(1)] show ?thesis by auto
  next
    case sent
    from assms(2) sent(4) fetches_no_send[OF sent(3)] have "m = m' \<and> out = out'" by auto
    moreover have "k \<in> set (keys xs)" using sent(1) by (force simp: keys_def)
    ultimately show ?thesis using sent by simp
  qed
qed

lemma notified_send:
  assumes "notified k evs"
  shows "\<exists>c m out. SendMessage c m out \<in> set evs \<and> msg_symbol m = k"
proof -
  from assms obtain e where e: "e \<in> set evs" "is_send_for k e"
    unfolding notified_def by (metis filter_False)
  show ?thesis
  proof (cases e)
    case (GetQuotes x y z)
    with e(2) show ?thesis by simp
  next
    case (SendMessage c m out)
    with e have "SendMessage c m out \<in> set evs" "msg_symbol m = k" by simp_all
    then show ?thesis by blast
  qed
qed

lemma check_loop_alerts:
  assumes "check_loop w xs s = (r, s')"
  shows "alerts s' = alerts s \<or> (\<exists>k'. k' \<in> set (keys xs) \<and> alerts s' = dict_del k' (alerts s))"
proof -
  from check_loop_cases[OF assms] consider "alerts s' = alerts s"
    | k a where "(k, a) \<in> set xs" "alerts s' = dict_del k (alerts s)"
    by (metis (full_types))
  then show ?thesis
  proof cases
    case 1
    then show ?thesis by simp
  next
    case 2
    then have "k \<in> set (keys xs)" by (force simp: keys_def)
    with 2 show ?thesis by blast
  qed
qed

lemma check_loop_absent:
  assumes "check_loop w xs s = (r, s')" and "k \<notin> set (keys xs)"
  shows "\<not> notified k (new_events s s') \<and>
     (k \<in> set (keys (alerts s'))) = (k \<in> set (keys (alerts s)))"
proof -
  have n: "\<not> notified k (new_events s s')"
    using notified_send[of k "new_events s s'"] check_loop_send[OF assms(1)] assms(2) by blast
  have "(k \<in> set (keys (alerts s'))) = (k \<in> set (keys (alerts s)))"
    using check_loop_alerts[OF assms(1)] assms(2) dict_del_other[of k _ "alerts s"] by metis
  with n show ?thesis by simp
qed

lemma cycle_notifies_once:
  assumes "check_loop w xs s = (r, s')"
  shows "length (filter (is_send_for k) (new_events s s')) \<le> 1"
  using check_loop_cases[OF assms] by (auto simp: fetches_not_notified)

text \<open>The passes of the loop of \<^verbatim>\<open>run\<close>.\<close>

lemma run_loop_step:
  assumes "alerts s \<noteq> []" and "check_alerts w s = (r1, s1)"
  shows "run_loop (Suc n) w s =
     (case r1 of None \<Rightarrow> run_loop n w s1
      | Some e \<Rightarrow> (if e = Base KeyboardInterrupt then None else Some e, s1))"
  using assms by (simp split: option.splits)

lemma run_loop_trace: "run_loop n w s = (r, s') \<Longrightarrow> trace s' = trace s @ new_events s s'"
proof (induction n arbitrary: s)
  case 0
  then show ?case by (simp add: new_events_def)
next
  case (Suc n)
  show ?case
  proof (cases "alerts s = []")
    case True
    with Suc show ?thesis by simp
  next
    case False
    obtain r1 s1 where c: "check_alerts w s = (r1, s1)" by (cases "check_alerts w s")
    then have cl: "check_loop w (alerts s) s = (r1, s1)" by (simp add: check_alerts_def)
    have t1: "trace s1 = trace s @ new_events s s1" using check_loop_cases[OF cl] by simp
    show ?thesis
    proof (cases r1)
      case (Some e)
      with run_loop_step[OF False c, of n] Suc.prems have "s' = s1" by (simp split: if_splits)
      with t1 show ?thesis by simp
    next
      case None
      with run_loop_step[OF False c, of n] Suc.prems have "run_loop n w s1 = (r, s')" by simp
      from Suc.IH[OF this] t1 have "trace s' = trace s @ (new_events s s1 @ new_events s1 s')"
        by (metis append_assoc)
      then show ?thesis using new_events_append by metis
    qed
  qed
qed

lemma run_loop_absent:
  "run_loop n w s = (r, s') \<Longrightarrow> k \<notin> set (keys (alerts s)) \<Longrightarrow>
     k \<notin> set (keys (alerts s')) \<and> \<not> notified k (new_events s s')"
proof (induction n arbitrary: s)
  case 0
  then show ?case by (simp add: new_events_def notified_def)
next
  case (Suc n)
  show ?case
  proof (cases "alerts s = []")
    case True
    with Suc.prems have "run_loop n w s = (r, s')" by simp
    from Suc.IH[OF this Suc.prems(2)] show ?thesis .
  next
    case False
    obtain r1 s1 where c: "check_alerts w s = (r1, s1)" by (cases "check_alerts w s")
    then have cl: "check_loop w (alerts s) s = (r1, s1)" by (simp add: check_alerts_def)
    note a1 = check_loop_absent[OF cl Suc.prems(2)]
    have t1: "trace s1 = trace s @ new_events s s1" using check_loop_cases[OF cl] by simp
    show ?thesis
    proof (cases r1)
      case (Some e)
      with run_loop_step[OF False c, of n] Suc.prems have "s' = s1" by (simp split: if_splits)
      with a1 Suc.prems(2) show ?thesis by simp
    next
      case None
      with run_loop_step[OF False c, of n] Suc.prems have rl: "run_loop n w s1 = (r, s')" by simp
      have k1: "k \<notin> set (keys (alerts s1))" using a1 Suc.prems(2) by simp
      note ih = Suc.IH[OF rl k1]
      have "trace s' = trace s @ (new_events s s1 @ new_events s1 s')"
        using run_loop_trace[OF rl] t1 by (metis append_assoc)
      then have "new_events s s' = new_events s s1 @ new_events s1 s'"
        by (rule new_events_append)
      with ih a1 show ?thesis by (simp add: notified_append)
    qed
  qed
qed

text \<open>Over a whole run, however it ends, at most one notification is sent for a key.\<close>

lemma run_loop_notifies_once:
  "distinct (keys (alerts s)) \<Longrightarrow> run_loop n w s = (r, s') \<Longrightarrow>
     length (filter (is_send_for k) (new_events s s')) \<le> 1"
proof (induction n arbitrary: s)
  case 0
  then show ?case by (simp add: new_events_def)
next
  case (Suc n)
  show ?case
  proof (cases "alerts s = []")
    case True
    with Suc show ?thesis by simp
  next
    case False
    obtain r1 s1 where c: "check_alerts w s = (r1, s1)" by (cases "check_alerts w s")
    then have cl: "check_loop w (alerts s) s = (r1, s1)" by (simp add: check_alerts_def)
    have t1: "trace s1 = trace s @ new_events s s1" using check_loop_cases[OF cl] by simp
    note once = cycle_notifies_once[OF cl, of k]
    show ?thesis
    proof (cases r1)
      case (Some e)
      with run_loop_step[OF False c, of n] Suc.prems have "s' = s1" by (simp split: if_splits)
      with once show ?thesis by simp
    next
      case None
      with run_loop_step[OF False c, of n] Suc.prems have rl: "run_loop n w s1 = (r, s')" by simp
      have "trace s' = trace s @ (new_events s s1 @ new_events s1 s')"
        using run_loop_trace[OF rl] t1 by (metis append_assoc)
      then have split: "new_events s s' = new_events s s1 @ new_events s1 s'"
        by (rule new_events_append)
      have d1: "distinct (keys (alerts s1))" using check_loop_distinct[OF cl Suc.prems(1)] .
      show ?thesis
      proof (cases "notified k (new_events s s1)")
        case True
        from notified_send[OF True] obtain c' m out where
          ev: "SendMessage c' m out \<in> set (new_events s s1)" "msg_symbol m = k" by blast
        from check_loop_send[OF cl ev(1)] ev(2) None have "alerts s1 = dict_del k (alerts s)"
          by (auto split: if_splits)
        then have "k \<notin> set (keys (alerts s1))" using Suc.prems(1) by (simp add: dict_del_removes)
        from run_loop_absent[OF rl this] have "filter (is_send_for k) (new_events s1 s') = []"
          by (simp add: notified_def)
        with once split show ?thesis by simp
      next
        case False
        then have "filter (is_send_for k) (new_events s s1) = []" by (simp add: notified_def)
        with Suc.IH[OF d1 rl] split show ?thesis by simp
      qed
    qed
  qed
qed

text \<open>
  A key that is not in the dictionary stays out of it, and nothing is sent for it, through
  any calls that do not register it.
\<close>

lemma apply_op_absent:
  assumes "k \<notin> set (keys (alerts s))" and "\<not> adds k x"
  shows "trace (apply_op w s x) = trace s @ new_events s (apply_op w s x) \<and>
     k \<notin> set (keys (alerts (apply_op w s x))) \<and>
     \<not> notified k (new_events s (apply_op w s x))"
proof (cases x)
  case (Add symbol exch tok target dir)
  with assms show ?thesis
    by (simp add: add_alert_def set_keys_dict_set new_events_def notified_def)
next
  case Login
  with assms(1) show ?thesis
    by (simp add: login_market_api_def new_events_def notified_def split: login_outcome.splits)
next
  case Check
  have cl: "check_loop w (alerts s) s = (fst (check_alerts w s), snd (check_alerts w s))"
    by (simp add: check_alerts_def)
  from check_loop_absent[OF cl assms(1)] check_loop_cases[OF cl] Check assms(1)
  show ?thesis by simp
qed

lemma foldl_apply_op_absent:
  "k \<notin> set (keys (alerts s)) \<Longrightarrow> filter (adds k) ops = [] \<Longrightarrow>
     trace (foldl (apply_op w) s ops) = trace s @ new_events s (foldl (apply_op w) s ops) \<and>
     k \<notin> set (keys (alerts (foldl (apply_op w) s ops))) \<and>
     \<not> notified k (new_events s (foldl (apply_op w) s ops))"
proof (induction ops arbitrary: s)
  case Nil
  then show ?case by (simp add: new_events_def notified_def)
next
  case (Cons x ops)
  from Cons.prems(2) have x: "\<not> adds k x" and rest: "filter (adds k) ops = []"
    by (auto split: if_splits)
  let ?s1 = "apply_op w s x"
  note a1 = apply_op_absent[OF Cons.prems(1) x, of w]
  then have k1: "k \<notin> set (keys (alerts ?s1))" by simp
  note ih = Cons.IH[OF k1 rest]
  let ?s2 = "foldl (apply_op w) ?s1 ops"
  have "trace ?s2 = trace s @ (new_events s ?s1 @ new_events ?s1 ?s2)"
    using a1 ih by (metis append_assoc)
  then have "new_events s ?s2 = new_events s ?s1 @ new_events ?s1 ?s2 \<and>
      trace ?s2 = trace s @ new_events s ?s2"
    using new_events_append by metis
  with a1 ih show ?case by (simp add: notified_append)
qed

lemma float_lt_irrefl: "\<not> float_lt p p"
  by (cases p) auto

lemma float_gt_Finite: "float_gt (Finite x) (Finite y) = (y < x)"
  by (simp add: float_gt_def)

subsection \<open>The scenarios, evaluated\<close>

lemmas demo_defs = demo_bot_def demo_bot3_def add_alert_def init_def reliance_def tcs_def infy_def
  demo_world_def demo_quotes_def demo_float_def watch_def quoting_def exiting_world_def

lemmas step_defs = check_alerts_def fetch_ltp_def send_telegram_alert_def
  has_field_def parse_field_def field_def float_gt_def Let_def

lemma demo_first_cycle:
  "check_alerts (demo_world out) demo_bot =
     (send_error out,
      \<lparr>alerts = (if send_error out = None then [(''TCS-EQ'', tcs)]
                 else [(''RELIANCE-EQ'', reliance), (''TCS-EQ'', tcs)]),
       logged_in = False, chat_id = ''chat'',
       trace = [GetQuotes ''NSE'' ''22'' Returned,
         SendMessage ''chat''
           (PriceAlert ''RELIANCE-EQ'' (Finite 2501) ''above'' (Finite 2500)) out]\<rparr>)"
  by (cases out) (simp_all add: demo_defs step_defs)

lemma demo3_cycle:
  "check_alerts (demo_world out) demo_bot3 =
     (send_error out,
      \<lparr>alerts = (if send_error out = None then [(''INFY-EQ'', infy), (''TCS-EQ'', tcs)]
                 else [(''INFY-EQ'', infy), (''RELIANCE-EQ'', reliance), (''TCS-EQ'', tcs)]),
       logged_in = False, chat_id = ''chat'',
       trace = [GetQuotes ''NSE'' ''11'' RaisedException, GetQuotes ''NSE'' ''22'' Returned,
         SendMessage ''chat''
           (PriceAlert ''RELIANCE-EQ'' (Finite 2501) ''above'' (Finite 2500)) out]\<rparr>)"
  by (cases out) (simp_all add: demo_defs step_defs)

lemma demo_bot_trace: "trace demo_bot = []" "trace demo_bot3 = []"
  by (simp_all add: demo_defs)

subsection \<open>What one cycle can and cannot do\<close>

text \<open>One call of \<^verbatim>\<open>check_alerts\<close> removes at most one alert.\<close>

lemma length_dict_del: "length d \<le> Suc (length (dict_del k d))"
  by (induction d) auto

lemma check_alerts_removes_at_most_one:
  "length (alerts s) \<le> Suc (length (alerts (snd (check_alerts w s))))"
proof -
  have "check_loop w (alerts s) s = (fst (check_alerts w s), snd (check_alerts w s))"
    by (simp add: check_alerts_def)
  from check_loop_alerts[OF this] show ?thesis
    using length_dict_del[of "alerts s"] by auto
qed

lemma map_of_dict_del_other: "k' \<noteq> k \<Longrightarrow> map_of (dict_del k' d) k = map_of d k"
  by (induction d) auto

text \<open>
  An alert whose quote fetch fails with a caught exception, or gives no price, is passed
  over: the loop goes on with the rest of the items, no notification is sent for the
  alert, and its entry is unchanged.
\<close>

lemma fetch_failure_keeps_alert:
  assumes "fetch_ltp w s (exchange a) (token a) = (Inr None, s1)"
    and "check_loop w ((k, a) # rest) s = (r, s')"
    and "k \<notin> set (keys rest)"
  shows "map_of (alerts s') k = map_of (alerts s) k \<and> \<not> notified k (new_events s s')"
proof -
  from fetch_ltp_state[OF assms(1)] obtain st where
    s1: "s1 = s\<lparr>trace := trace s @ [GetQuotes (exchange a) (token a) st]\<rparr>" by blast
  have cl: "check_loop w rest s1 = (r, s')"
    using check_loop_skip[OF assms(1), of k rest] assms(2) by simp
  note ab = check_loop_absent[OF cl assms(3)]
  have "trace s' = trace s @ (GetQuotes (exchange a) (token a) st # new_events s1 s')"
    using check_loop_cases[OF cl] unfolding s1 by simp
  then have "new_events s s' = GetQuotes (exchange a) (token a) st # new_events s1 s'"
    by (rule new_events_append)
  then have n: "\<not> notified k (new_events s s')" using ab by (simp add: notified_def)
  have "map_of (alerts s') k = map_of (alerts s1) k"
    using check_loop_alerts[OF cl] assms(3) map_of_dict_del_other[of _ k "alerts s1"] by metis
  with n show ?thesis unfolding s1 by simp
qed

subsection \<open>Price extraction\<close>

text \<open>
  C10. \<^verbatim>\<open>fetch_ltp\<close> returns the float of field \<^verbatim>\<open>lp\<close> whenever the response has it
  (also when \<^verbatim>\<open>ltp\<close> is there too), the float of \<^verbatim>\<open>ltp\<close> only when \<^verbatim>\<open>lp\<close> is absent,
  and no price when the call raises an \<^verbatim>\<open>Exception\<close>, when the response is \<^verbatim>\<open>None\<close> or
  empty or has neither field, or when the chosen value does not parse (\<open>py_float\<close> gives
  \<open>None\<close>). Only an exception of the call that is not an \<^verbatim>\<open>Exception\<close> leaves the method.
\<close>

theorem fetch_ltp_prefers_lp:
  "fst (fetch_ltp w s exch tok) =
     (case get_quotes w (length (trace s)) exch tok of
        QuoteRaisesBase b \<Rightarrow> Inl (Base b)
      | QuoteRaises \<Rightarrow> Inr None
      | QuoteReturns None \<Rightarrow> Inr None
      | QuoteReturns (Some q) \<Rightarrow>
          Inr (case map_of q ''lp'' of
                 Some v \<Rightarrow> py_float w v
               | None \<Rightarrow> (case map_of q ''ltp'' of Some v \<Rightarrow> py_float w v | None \<Rightarrow> None)))"
  by (cases "get_quotes w (length (trace s)) exch tok")
    (auto simp: fetch_ltp_def Let_def has_field_def parse_field_def field_def
      split: option.splits)

subsection \<open>One alert per key\<close>

text \<open>
  C3. Whatever sequence of calls was made on the object, its dictionary holds at most one
  alert per key; and when two \<^verbatim>\<open>add_alert\<close> calls for the same key follow, the
  dictionary holds exactly one alert for that key, with the criteria of the second call.
\<close>

theorem one_alert_per_key:
  "distinct (keys (alerts (apply_ops w c ops))) \<and>
   filter (\<lambda>p. fst p = k)
     (alerts (apply_ops w c (ops @ [Add k e1 t1 p1 d1, Add k e2 t2 p2 d2]))) =
     [(k, \<lparr>exchange = e2, token = t2, target_price = p2, direction = d2\<rparr>)]"
proof -
  have "distinct (keys (alerts (add_alert (apply_ops w c ops) k e1 t1 p1 d1)))"
    using apply_ops_distinct[of w c ops] by (simp add: add_alert_def distinct_dict_set)
  then have "filter (\<lambda>p. fst p = k)
      (alerts (add_alert (add_alert (apply_ops w c ops) k e1 t1 p1 d1) k e2 t2 p2 d2)) =
      [(k, \<lparr>exchange = e2, token = t2, target_price = p2, direction = d2\<rparr>)]"
    by (simp add: add_alert_def filter_dict_set)
  then show ?thesis using apply_ops_distinct[of w c ops] by (simp add: apply_ops_def)
qed

subsection \<open>The crossing condition\<close>

text \<open>
  C2. Take the loop of \<^verbatim>\<open>check_alerts\<close> at an alert \<open>(k, a)\<close> for which a price \<open>p\<close> was
  fetched. If the alert is an \<^verbatim>\<open>above\<close> alert, a notification for \<open>k\<close> is sent exactly
  when \<open>p\<close> is strictly greater than the target; if it is a \<^verbatim>\<open>below\<close> alert, exactly when
  \<open>p\<close> is strictly less than the target; a price equal to the target sends nothing. When the
  cycle ends without an exception, \<open>k\<close> has left the dictionary exactly when the notification
  was sent. (The keys of a dictionary are distinct, and \<open>k\<close> is still in it when the loop
  reaches it.)
\<close>

theorem direction_correctness:
  assumes "fetch_ltp w s (exchange a) (token a) = (Inr (Some p), s1)"
    and "check_loop w ((k, a) # rest) s = (r, s')"
    and "k \<notin> set (keys rest)"
    and "distinct (keys (alerts s))"
    and "k \<in> set (keys (alerts s))"
  shows "(direction a = ''above'' \<longrightarrow>
            notified k (new_events s s') = float_gt p (target_price a)) \<and>
         (direction a = ''below'' \<longrightarrow>
            notified k (new_events s s') = float_lt p (target_price a)) \<and>
         (p = target_price a \<longrightarrow> \<not> notified k (new_events s s')) \<and>
         (r = None \<longrightarrow> (k \<notin> set (keys (alerts s'))) = notified k (new_events s s'))"
proof -
  from fetch_ltp_state[OF assms(1)] obtain st where
    s1: "s1 = s\<lparr>trace := trace s @ [GetQuotes (exchange a) (token a) st]\<rparr>" by blast
  let ?g = "GetQuotes (exchange a) (token a) st"
  have key: "notified k (new_events s s') = crossing a p \<and>
      (r = None \<longrightarrow> (k \<notin> set (keys (alerts s'))) = crossing a p)"
  proof (cases "crossing a p")
    case True
    let ?m = "PriceAlert k p (direction a) (target_price a)"
    let ?out = "send_message w (length (trace s1)) (chat_id s1) ?m"
    let ?s2 = "s1\<lparr>trace := trace s1 @ [SendMessage (chat_id s1) ?m ?out]\<rparr>"
    have res: "(r, s') =
        (if send_error ?out = None then (None, ?s2\<lparr>alerts := dict_del k (alerts s1)\<rparr>)
         else (send_error ?out, ?s2))"
      using check_loop_crossing[OF assms(1) True, of k rest] assms(2) by (simp add: Let_def)
    have "trace s' = trace s @ [?g, SendMessage (chat_id s) ?m ?out]"
      using res unfolding s1 by (auto split: if_splits)
    then have "new_events s s' = [?g, SendMessage (chat_id s) ?m ?out]"
      by (rule new_events_append)
    then have n: "notified k (new_events s s')" by (simp add: notified_def)
    have "alerts s' = dict_del k (alerts s)" if "r = None"
      using that res unfolding s1 by (auto split: if_splits)
    then have "k \<notin> set (keys (alerts s'))" if "r = None"
      using that assms(4) by (simp add: dict_del_removes)
    with n True show ?thesis by simp
  next
    case False
    have cl: "check_loop w rest s1 = (r, s')"
      using check_loop_no_crossing[OF assms(1) False, of k rest] assms(2) by simp
    note ab = check_loop_absent[OF cl assms(3)]
    have "trace s' = trace s @ (?g # new_events s1 s')"
      using check_loop_cases[OF cl] unfolding s1 by simp
    then have "new_events s s' = ?g # new_events s1 s'" by (rule new_events_append)
    then have "\<not> notified k (new_events s s')" using ab by (simp add: notified_def)
    moreover have "k \<in> set (keys (alerts s'))" using ab assms(5) unfolding s1 by simp
    ultimately show ?thesis using False by simp
  qed
  have "crossing a p = float_gt p (target_price a)" if "direction a = ''above''"
    using that by (simp add: crossing_def)
  moreover have "crossing a p = float_lt p (target_price a)" if "direction a = ''below''"
    using that by (simp add: crossing_def)
  moreover have "\<not> crossing a p" if "p = target_price a"
    using that by (simp add: crossing_def float_gt_def float_lt_irrefl)
  ultimately show ?thesis using key by simp
qed

theorem direction_correctness_witness:
  "notified ''X'' (new_events (watch ''above'' (Finite 100))
      (snd (check_alerts (quoting (Finite 100.01)) (watch ''above'' (Finite 100))))) \<and>
   ''X'' \<notin> set (keys (alerts
      (snd (check_alerts (quoting (Finite 100.01)) (watch ''above'' (Finite 100)))))) \<and>
   \<not> notified ''X'' (new_events (watch ''above'' (Finite 100))
      (snd (check_alerts (quoting (Finite 100)) (watch ''above'' (Finite 100))))) \<and>
   notified ''X'' (new_events (watch ''below'' (Finite 100))
      (snd (check_alerts (quoting (Finite 99.99)) (watch ''below'' (Finite 100))))) \<and>
   \<not> notified ''X'' (new_events (watch ''below'' (Finite 100))
      (snd (check_alerts (quoting (Finite 100)) (watch ''below'' (Finite 100)))))"
proof -
  let ?a = "\<lambda>d. \<lparr>exchange = ''NSE'', token = ''1'', target_price = Finite 100, direction = d\<rparr>"
  have f: "fetch_ltp (quoting p) (watch d (Finite 100)) (exchange (?a d)) (token (?a d)) =
      (Inr (Some p), (watch d (Finite 100))\<lparr>trace := [GetQuotes ''NSE'' ''1'' Returned]\<rparr>)"
    for p d
    by (simp add: demo_defs step_defs)
  have c: "check_loop (quoting p) ((''X'', ?a d) # []) (watch d (Finite 100)) =
      (fst (check_alerts (quoting p) (watch d (Finite 100))),
       snd (check_alerts (quoting p) (watch d (Finite 100))))" for p d
    by (simp add: check_alerts_def watch_def add_alert_def init_def)
  have k: "''X'' \<notin> set (keys [])" "distinct (keys (alerts (watch d (Finite 100))))"
    "''X'' \<in> set (keys (alerts (watch d (Finite 100))))" for d
    by (simp_all add: keys_def watch_def add_alert_def init_def)
  have r: "fst (check_alerts (quoting p) (watch d (Finite 100))) = None" for p d
    by (simp add: demo_defs step_defs)
  have t: "direction (?a d) = d" for d by simp
  from direction_correctness[OF f[of "Finite 100.01" "''above''"] c k]
    direction_correctness[OF f[of "Finite 100" "''above''"] c k]
    direction_correctness[OF f[of "Finite 99.99" "''below''"] c k]
    direction_correctness[OF f[of "Finite 100" "''below''"] c k] r t
  show ?thesis by (simp add: float_gt_def)
qed

subsection \<open>Retirement on trigger\<close>

text \<open>
  C5, as the code has it. In every cycle, an alert for which a notification was sent is
  removed from the dictionary whether the delivery succeeded or failed with a
  \<^verbatim>\<open>TelegramError\<close> (the failure \<^verbatim>\<open>send_telegram_alert\<close> handles and logs as "Failed to
  send Telegram message"): the cycle ends without an exception and the dictionary is the
  old one without that alert.
\<close>

theorem delivery_failure_still_retires:
  assumes "distinct (keys (alerts s))"
    and "check_alerts w s = (r, s')"
    and "SendMessage c m out \<in> set (new_events s s')"
    and "out = Delivered \<or> out = RaisesTelegramError"
  shows "r = None \<and> msg_symbol m \<in> set (keys (alerts s)) \<and>
     alerts s' = dict_del (msg_symbol m) (alerts s) \<and> msg_symbol m \<notin> set (keys (alerts s'))"
proof -
  have cl: "check_loop w (alerts s) s = (r, s')" using assms(2) by (simp add: check_alerts_def)
  have "send_error out = None" using assms(4) by auto
  with check_loop_send[OF cl assms(3)]
  have "msg_symbol m \<in> set (keys (alerts s))" "r = None"
    "alerts s' = dict_del (msg_symbol m) (alerts s)" by simp_all
  then show ?thesis using assms(1) by (simp add: dict_del_removes)
qed

theorem delivery_failure_still_retires_witness:
  "fst (check_alerts (demo_world RaisesTelegramError) demo_bot) = None \<and>
   alerts (snd (check_alerts (demo_world RaisesTelegramError) demo_bot)) = [(''TCS-EQ'', tcs)] \<and>
   ''RELIANCE-EQ'' \<notin> set (keys (alerts (snd (check_alerts (demo_world RaisesTelegramError) demo_bot))))"
proof -
  let ?m = "PriceAlert ''RELIANCE-EQ'' (Finite 2501) ''above'' (Finite 2500)"
  have d: "distinct (keys (alerts demo_bot))" by (simp add: demo_bot_alerts keys_def)
  have e: "SendMessage ''chat'' ?m RaisesTelegramError \<in>
      set (new_events demo_bot (snd (check_alerts (demo_world RaisesTelegramError) demo_bot)))"
    by (simp add: demo_first_cycle new_events_def demo_bot_trace)
  from delivery_failure_still_retires[OF d surjective_pairing e]
  show ?thesis by (simp add: demo_bot_alerts keys_def)
qed

text \<open>
  C5 as stated fails: when the send raises an exception that is not a \<^verbatim>\<open>TelegramError\<close>,
  the notification was attempted for the alert, the cycle ends with that exception, and
  the alert is still in the dictionary.
\<close>

theorem other_send_exception_keeps_alert:
  "SendMessage ''chat'' (PriceAlert ''RELIANCE-EQ'' (Finite 2501) ''above'' (Finite 2500))
       RaisesOther \<in>
     set (new_events demo_bot (snd (check_alerts (demo_world RaisesOther) demo_bot))) \<and>
   fst (check_alerts (demo_world RaisesOther) demo_bot) = Some NotifierException \<and>
   ''RELIANCE-EQ'' \<in> set (keys (alerts (snd (check_alerts (demo_world RaisesOther) demo_bot))))"
  by (simp add: demo_first_cycle new_events_def demo_bot_trace keys_def)

text \<open>
  C4, as the code has it. If a cycle that ends without an exception sent a notification for
  \<open>k\<close> (the send delivered or raised a \<^verbatim>\<open>TelegramError\<close>), then \<open>k\<close> is no longer in the
  dictionary after it; and whatever calls follow (cycles, logins, \<^verbatim>\<open>add_alert\<close> for other
  keys), as long as none of them is an \<^verbatim>\<open>add_alert\<close> for \<open>k\<close>, and whatever the market
  quotes, \<open>k\<close> stays absent and no further notification for \<open>k\<close> is sent.
\<close>

theorem no_double_trigger:
  assumes "distinct (keys (alerts s))"
    and "check_alerts w s = (None, s1)"
    and "notified k (new_events s s1)"
    and "filter (adds k) ops = []"
  shows "k \<notin> set (keys (alerts s1)) \<and>
     k \<notin> set (keys (alerts (foldl (apply_op w) s1 ops))) \<and>
     \<not> notified k (new_events s1 (foldl (apply_op w) s1 ops))"
proof -
  have cl: "check_loop w (alerts s) s = (None, s1)" using assms(2) by (simp add: check_alerts_def)
  from notified_send[OF assms(3)] obtain c m out where
    ev: "SendMessage c m out \<in> set (new_events s s1)" "msg_symbol m = k" by blast
  from check_loop_send[OF cl ev(1)] ev(2) have "alerts s1 = dict_del k (alerts s)"
    by (auto split: if_splits)
  then have "k \<notin> set (keys (alerts s1))" using assms(1) by (simp add: dict_del_removes)
  with foldl_apply_op_absent[OF this assms(4), of w] show ?thesis by simp
qed

theorem no_double_trigger_witness:
  "''RELIANCE-EQ'' \<notin> set (keys (alerts (snd (check_alerts (demo_world Delivered) demo_bot)))) \<and>
   ''RELIANCE-EQ'' \<notin> set (keys (alerts (foldl (apply_op (demo_world Delivered))
      (snd (check_alerts (demo_world Delivered) demo_bot))
      [Check, Add ''INFY-EQ'' ''NSE'' ''11'' (Finite 1500) ''above'', Check, Check]))) \<and>
   \<not> notified ''RELIANCE-EQ'' (new_events (snd (check_alerts (demo_world Delivered) demo_bot))
      (foldl (apply_op (demo_world Delivered))
      (snd (check_alerts (demo_world Delivered) demo_bot))
      [Check, Add ''INFY-EQ'' ''NSE'' ''11'' (Finite 1500) ''above'', Check, Check]))"
proof -
  have d: "distinct (keys (alerts demo_bot))" by (simp add: demo_bot_alerts keys_def)
  have c: "check_alerts (demo_world Delivered) demo_bot =
      (None, snd (check_alerts (demo_world Delivered) demo_bot))"
    by (simp add: demo_first_cycle)
  have n: "notified ''RELIANCE-EQ''
      (new_events demo_bot (snd (check_alerts (demo_world Delivered) demo_bot)))"
    by (simp add: demo_first_cycle new_events_def notified_def demo_bot_trace)
  have a: "filter (adds ''RELIANCE-EQ'')
      [Check, Add ''INFY-EQ'' ''NSE'' ''11'' (Finite 1500) ''above'', Check, Check] = []"
    by simp
  from no_double_trigger[OF d c n a] show ?thesis .
qed

text \<open>
  C4 as stated fails. When the send raises an exception that is not a \<^verbatim>\<open>TelegramError\<close>,
  the alert is not removed in the cycle in which it triggered, and the next call of
  \<^verbatim>\<open>check_alerts\<close> sends a notification for the same key again.
\<close>

theorem failed_send_fires_again:
  "alerts (apply_ops (demo_world RaisesOther) ''chat''
      [Add ''RELIANCE-EQ'' ''NSE'' ''22'' (Finite 2500) ''above'', Check]) =
     [(''RELIANCE-EQ'', reliance)] \<and>
   trace (apply_ops (demo_world RaisesOther) ''chat''
      [Add ''RELIANCE-EQ'' ''NSE'' ''22'' (Finite 2500) ''above'', Check, Check]) =
     [GetQuotes ''NSE'' ''22'' Returned,
      SendMessage ''chat'' (PriceAlert ''RELIANCE-EQ'' (Finite 2501) ''above'' (Finite 2500))
        RaisesOther,
      GetQuotes ''NSE'' ''22'' Returned,
      SendMessage ''chat'' (PriceAlert ''RELIANCE-EQ'' (Finite 2501) ''above'' (Finite 2500))
        RaisesOther]"
  by (simp add: apply_ops_def demo_defs step_defs)

subsection \<open>Start-up\<close>

text \<open>
  C7. The only readiness check of \<^verbatim>\<open>run\<close> is the login it attempts first. If that login
  does not give a session, \<^verbatim>\<open>run\<close> ends at once, whatever the number of passes the loop
  would have been allowed: with the early return (\<open>CannotStart\<close>) when the login returned
  \<^verbatim>\<open>None\<close>, with the exception when it raised. No quote was fetched, no notification
  sent, and the dictionary is unchanged.
\<close>

theorem run_not_ready:
  assumes "login w \<noteq> LoginReturnsSession"
  shows "alerts (snd (run n w s)) = alerts s \<and> trace (snd (run n w s)) = trace s \<and>
     fst (run n w s) = (if login w = LoginReturnsNone then CannotStart else Raised LoginException)"
  using assms by (cases "login w") (simp_all add: run_def login_market_api_def)

theorem run_not_ready_witness:
  "fst (run 3 offline_world demo_bot) = CannotStart \<and>
   alerts (snd (run 3 offline_world demo_bot)) = alerts demo_bot \<and>
   trace (snd (run 3 offline_world demo_bot)) = trace demo_bot"
  using run_not_ready[of offline_world 3 demo_bot]
  by (simp add: offline_world_def demo_world_def)

subsection \<open>Directions are not validated\<close>

text \<open>
  C8, as the code has it. \<^verbatim>\<open>add_alert\<close> accepts every direction: the alert is stored under
  its key with the direction as given. At evaluation time an alert whose direction is
  neither \<^verbatim>\<open>above\<close> nor \<^verbatim>\<open>below\<close> is passed over after its quote fetch: nothing is sent
  or removed for it, and the loop goes on to the next alert (or ends with the exception the
  fetch let out).
\<close>

theorem add_alert_stores_any_direction:
  "map_of (alerts (add_alert s k e t p d)) k =
       Some \<lparr>exchange = e, token = t, target_price = p, direction = d\<rparr> \<and>
   (d \<noteq> ''above'' \<and> d \<noteq> ''below'' \<longrightarrow>
      check_loop w ((k, \<lparr>exchange = e, token = t, target_price = p, direction = d\<rparr>) # rest) s0 =
      (case fetch_ltp w s0 e t of
         (Inl err, s1) \<Rightarrow> (Some err, s1)
       | (Inr q, s1) \<Rightarrow> check_loop w rest s1))"
  by (cases "fetch_ltp w s0 e t")
    (auto simp: add_alert_def map_of_dict_set split: option.splits sum.splits)

theorem add_alert_stores_any_direction_witness:
  "map_of (alerts (add_alert (init ''chat'') ''RELIANCE-EQ'' ''NSE'' ''22'' (Finite 2500)
       ''sideways'')) ''RELIANCE-EQ'' =
     Some \<lparr>exchange = ''NSE'', token = ''22'', target_price = Finite 2500,
       direction = ''sideways''\<rparr> \<and>
   check_loop (demo_world Delivered)
     [(''RELIANCE-EQ'', \<lparr>exchange = ''NSE'', token = ''22'', target_price = Finite 2500,
         direction = ''sideways''\<rparr>)] (init ''chat'') =
     (None, (init ''chat'')\<lparr>trace := [GetQuotes ''NSE'' ''22'' Returned]\<rparr>)"
  using add_alert_stores_any_direction[of "init ''chat''" "''RELIANCE-EQ''" "''NSE''" "''22''"
      "Finite 2500" "''sideways''" "demo_world Delivered" "[]" "init ''chat''"]
  by (simp add: demo_defs step_defs)

text \<open>C8 as stated fails: a direction outside the two values is stored.\<close>

theorem add_alert_sideways_stored:
  "alerts (add_alert (init ''chat'') ''RELIANCE-EQ'' ''NSE'' ''22'' (Finite 2500) ''sideways'') =
     [(''RELIANCE-EQ'', \<lparr>exchange = ''NSE'', token = ''22'', target_price = Finite 2500,
        direction = ''sideways''\<rparr>)]"
  by (simp add: add_alert_def init_def)

subsection \<open>Which failures are caught\<close>

text \<open>
  C9, as the code has it. A failure of the quote call that is an \<^verbatim>\<open>Exception\<close> is caught
  in \<^verbatim>\<open>fetch_ltp\<close> and becomes a skip: the loop goes on with the next alert, from the same
  object. A \<^verbatim>\<open>TelegramError\<close> of the send is caught in \<^verbatim>\<open>send_telegram_alert\<close> and the
  loop continues as after a delivery: it removes the alert and the cycle ends normally.
  And no such failure leaves the cycle: when no collaborator call of a cycle raised
  outside these two classes, no exception of a collaborator leaves \<^verbatim>\<open>check_alerts\<close>.
\<close>

theorem handled_failures_do_not_propagate:
  "(get_quotes w (length (trace s)) (exchange a) (token a) = QuoteRaises \<longrightarrow>
      check_loop w ((k, a) # rest) s =
      check_loop w rest
        (s\<lparr>trace := trace s @ [GetQuotes (exchange a) (token a) RaisedException]\<rparr>)) \<and>
   (fetch_ltp w s (exchange a) (token a) = (Inr (Some p), s1) \<and> crossing a p \<and>
    send_message w (length (trace s1)) (chat_id s1)
      (PriceAlert k p (direction a) (target_price a)) = RaisesTelegramError \<longrightarrow>
      check_loop w ((k, a) # rest) s =
      (None,
       s1\<lparr>trace := trace s1 @
             [SendMessage (chat_id s1) (PriceAlert k p (direction a) (target_price a))
                RaisesTelegramError],
          alerts := dict_del k (alerts s1)\<rparr>)) \<and>
   (check_alerts w s = (r, s') \<and> filter beyond_handlers (new_events s s') = [] \<longrightarrow>
      r = None)"
proof (intro conjI impI)
  assume "get_quotes w (length (trace s)) (exchange a) (token a) = QuoteRaises"
  then show "check_loop w ((k, a) # rest) s =
      check_loop w rest
        (s\<lparr>trace := trace s @ [GetQuotes (exchange a) (token a) RaisedException]\<rparr>)"
    by (simp add: fetch_ltp_def)
next
  assume h: "fetch_ltp w s (exchange a) (token a) = (Inr (Some p), s1) \<and> crossing a p \<and>
    send_message w (length (trace s1)) (chat_id s1)
      (PriceAlert k p (direction a) (target_price a)) = RaisesTelegramError"
  then have f: "fetch_ltp w s (exchange a) (token a) = (Inr (Some p), s1)"
    and c: "crossing a p" by simp_all
  from check_loop_crossing[OF f c, of k rest] h
  show "check_loop w ((k, a) # rest) s =
      (None,
       s1\<lparr>trace := trace s1 @
             [SendMessage (chat_id s1) (PriceAlert k p (direction a) (target_price a))
                RaisesTelegramError],
          alerts := dict_del k (alerts s1)\<rparr>)"
    by (simp add: Let_def)
next
  assume h: "check_alerts w s = (r, s') \<and> filter beyond_handlers (new_events s s') = []"
  then have cl: "check_loop w (alerts s) s = (r, s')" by (simp add: check_alerts_def)
  from check_loop_cases[OF cl] consider "r = None"
    | e t b fs where "new_events s s' = fs @ [GetQuotes e t (RaisedBase b)]"
    | m out fs where "new_events s s' = fs @ [SendMessage (chat_id s) m out]"
        "r = send_error out"
    by blast
  then show "r = None"
  proof cases
    case 1
    then show ?thesis .
  next
    case 2
    with h show ?thesis by simp
  next
    case 3
    with h have "\<not> beyond_handlers (SendMessage (chat_id s) m out)"
      by (auto split: if_splits)
    with 3 show ?thesis by simp
  qed
qed

theorem handled_failures_do_not_propagate_witness:
  "check_loop (demo_world RaisesTelegramError)
      [(''INFY-EQ'', infy), (''RELIANCE-EQ'', reliance), (''TCS-EQ'', tcs)] demo_bot3 =
    check_loop (demo_world RaisesTelegramError)
      [(''RELIANCE-EQ'', reliance), (''TCS-EQ'', tcs)]
      (demo_bot3\<lparr>trace := [GetQuotes ''NSE'' ''11'' RaisedException]\<rparr>) \<and>
   check_loop (demo_world RaisesTelegramError)
      [(''RELIANCE-EQ'', reliance), (''TCS-EQ'', tcs)] demo_bot =
    (None,
     demo_bot\<lparr>trace := [GetQuotes ''NSE'' ''22'' Returned,
          SendMessage ''chat'' (PriceAlert ''RELIANCE-EQ'' (Finite 2501) ''above'' (Finite 2500))
            RaisesTelegramError],
        alerts := [(''TCS-EQ'', tcs)]\<rparr>) \<and>
   fst (check_alerts (demo_world RaisesTelegramError) demo_bot3) = None"
proof -
  let ?w = "demo_world RaisesTelegramError"
  have q: "get_quotes ?w (length (trace demo_bot3)) (exchange infy) (token infy) = QuoteRaises"
    by (simp add: demo_defs)
  have a: "check_loop ?w ((''INFY-EQ'', infy) # [(''RELIANCE-EQ'', reliance), (''TCS-EQ'', tcs)])
      demo_bot3 =
    check_loop ?w [(''RELIANCE-EQ'', reliance), (''TCS-EQ'', tcs)]
      (demo_bot3\<lparr>trace := trace demo_bot3 @
         [GetQuotes (exchange infy) (token infy) RaisedException]\<rparr>)"
    using handled_failures_do_not_propagate[where w = ?w and s = demo_bot3 and a = infy
        and k = "''INFY-EQ''" and rest = "[(''RELIANCE-EQ'', reliance), (''TCS-EQ'', tcs)]"] q
    by blast
  let ?s1 = "demo_bot\<lparr>trace := [GetQuotes ''NSE'' ''22'' Returned]\<rparr>"
  have f: "fetch_ltp ?w demo_bot (exchange reliance) (token reliance) =
      (Inr (Some (Finite 2501)), ?s1)"
    by (simp add: demo_defs step_defs)
  have c: "crossing reliance (Finite 2501)"
    by (simp add: crossing_def reliance_def float_gt_def)
  have m: "send_message ?w (length (trace ?s1)) (chat_id ?s1)
      (PriceAlert ''RELIANCE-EQ'' (Finite 2501) (direction reliance) (target_price reliance)) =
      RaisesTelegramError"
    by (simp add: demo_world_def)
  have b: "check_loop ?w ((''RELIANCE-EQ'', reliance) # [(''TCS-EQ'', tcs)]) demo_bot =
      (None,
       ?s1\<lparr>trace := trace ?s1 @
             [SendMessage (chat_id ?s1)
                (PriceAlert ''RELIANCE-EQ'' (Finite 2501) (direction reliance)
                   (target_price reliance))
                RaisesTelegramError],
          alerts := dict_del ''RELIANCE-EQ'' (alerts ?s1)\<rparr>)"
    using handled_failures_do_not_propagate[where w = ?w and s = demo_bot and a = reliance
        and k = "''RELIANCE-EQ''" and rest = "[(''TCS-EQ'', tcs)]" and p = "Finite 2501"
        and ?s1.0 = ?s1] f c m
    by blast
  have h: "filter beyond_handlers
      (new_events demo_bot3 (snd (check_alerts ?w demo_bot3))) = []"
    by (simp add: demo3_cycle new_events_def demo_bot_trace)
  have r: "fst (check_alerts ?w demo_bot3) = None"
    using handled_failures_do_not_propagate[where w = ?w and s = demo_bot3
        and r = "fst (check_alerts ?w demo_bot3)" and s' = "snd (check_alerts ?w demo_bot3)"] h
    by simp
  from a b r show ?thesis
    by (simp add: demo_bot3_def demo_bot_alerts demo_bot_def add_alert_def init_def
        reliance_def infy_def tcs_def)
qed

text \<open>
  C9 as stated fails: an exception of the send that is not a \<^verbatim>\<open>TelegramError\<close> leaves
  \<^verbatim>\<open>check_alerts\<close> (and the alert stays), and so does a \<^verbatim>\<open>SystemExit\<close> raised in the
  quote call.
\<close>

theorem other_send_exception_propagates:
  "fst (check_alerts (demo_world RaisesOther) demo_bot) = Some NotifierException \<and>
   alerts (snd (check_alerts (demo_world RaisesOther) demo_bot)) = alerts demo_bot \<and>
   fst (check_alerts exiting_world demo_bot) = Some (Base SystemExit)"
  by (simp add: demo_first_cycle demo_bot_alerts) (simp add: demo_defs step_defs)

subsection \<open>The early exit\<close>

text \<open>
  C1 fails on the code. Both alerts of the main block satisfy their crossing condition and
  both quotes are available, yet one call of \<^verbatim>\<open>check_alerts\<close> fetches one quote, sends one
  notification and removes one alert: the \<^verbatim>\<open>break\<close> after the first trigger ends the
  cycle, and the second alert is still in the dictionary.
\<close>

theorem early_exit_leaves_second_alert:
  "fst (fetch_ltp (demo_world Delivered) demo_bot ''NSE'' ''22'') = Inr (Some (Finite 2501)) \<and>
   fst (fetch_ltp (demo_world Delivered) demo_bot ''NSE'' ''33'') = Inr (Some (Finite 2950)) \<and>
   crossing reliance (Finite 2501) \<and> crossing tcs (Finite 2950) \<and>
   alerts demo_bot = [(''RELIANCE-EQ'', reliance), (''TCS-EQ'', tcs)] \<and>
   fst (check_alerts (demo_world Delivered) demo_bot) = None \<and>
   alerts (snd (check_alerts (demo_world Delivered) demo_bot)) = [(''TCS-EQ'', tcs)] \<and>
   trace (snd (check_alerts (demo_world Delivered) demo_bot)) =
     [GetQuotes ''NSE'' ''22'' Returned,
      SendMessage ''chat'' (PriceAlert ''RELIANCE-EQ'' (Finite 2501) ''above'' (Finite 2500))
        Delivered]"
  by (simp add: demo_first_cycle demo_bot_alerts)
    (simp add: demo_defs step_defs crossing_def)

text \<open>
  C6 fails on the code, by the same \<^verbatim>\<open>break\<close>. The fetch for the first alert fails and
  the alert stays, as claimed; the second alert triggers; the third alert, whose crossing
  condition holds too, is not evaluated in this cycle (no quote is fetched for token 33).
\<close>

theorem fetch_failure_then_early_exit:
  "fst (fetch_ltp (demo_world Delivered) demo_bot3 ''NSE'' ''11'') = Inr None \<and>
   fst (fetch_ltp (demo_world Delivered) demo_bot3 ''NSE'' ''33'') = Inr (Some (Finite 2950)) \<and>
   crossing reliance (Finite 2501) \<and> crossing tcs (Finite 2950) \<and>
   alerts demo_bot3 = [(''INFY-EQ'', infy), (''RELIANCE-EQ'', reliance), (''TCS-EQ'', tcs)] \<and>
   alerts (snd (check_alerts (demo_world Delivered) demo_bot3)) =
     [(''INFY-EQ'', infy), (''TCS-EQ'', tcs)] \<and>
   trace (snd (check_alerts (demo_world Delivered) demo_bot3)) =
     [GetQuotes ''NSE'' ''11'' RaisedException, GetQuotes ''NSE'' ''22'' Returned,
      SendMessage ''chat'' (PriceAlert ''RELIANCE-EQ'' (Finite 2501) ''above'' (Finite 2500))
        Delivered]"
  by (simp add: demo3_cycle) (simp add: demo_defs step_defs crossing_def)

end
